theory Spec2Isabelle
  imports Complex_Main
begin

section \<open>JavaScript values\<close>

text \<open>
  The processing view (\<^verbatim>\<open>pages/ProjectProcessing.jsx\<close>) and the socket hook
  (\<^verbatim>\<open>hooks/useWebSocket.js\<close>) work on values decoded from JSON. A JavaScript number is
  a double: every finite double is a rational, and the view only compares numbers and
  takes minima and maxima, which are exact, so a finite number is a \<open>rat\<close>. The two
  zeros are not told apart: \<open>-0\<close> is falsy and equal to \<open>0\<close> in every comparison made.
\<close>

datatype jsnum = NaN | NegInf | Fin rat | PosInf

datatype jsval =
    JUndefined
  | JNull
  | JBool bool
  | JNum jsnum
  | JStr string
  | JArr "jsval list"
  | JObj "(string \<times> jsval) list"

text \<open>The relation \<open>a <= b\<close> on numbers: false as soon as one side is \<open>NaN\<close>.\<close>

fun js_le :: "jsnum \<Rightarrow> jsnum \<Rightarrow> bool" where
  "js_le NaN _ = False"
| "js_le _ NaN = False"
| "js_le NegInf _ = True"
| "js_le _ PosInf = True"
| "js_le (Fin a) (Fin b) = (a \<le> b)"
| "js_le _ _ = False"

text \<open>\<open>a >= b\<close>.\<close>

definition js_ge :: "jsnum \<Rightarrow> jsnum \<Rightarrow> bool" where
  "js_ge a b = js_le b a"

text \<open>\<^verbatim>\<open>Math.min(a, b)\<close> and \<^verbatim>\<open>Math.max(a, b)\<close> on numbers: \<open>NaN\<close> if an argument is.\<close>

definition js_min :: "jsnum \<Rightarrow> jsnum \<Rightarrow> jsnum" where
  "js_min a b = (if a = NaN \<or> b = NaN then NaN else if js_le a b then a else b)"

definition js_max :: "jsnum \<Rightarrow> jsnum \<Rightarrow> jsnum" where
  "js_max a b = (if a = NaN \<or> b = NaN then NaN else if js_le a b then b else a)"

text \<open>Truthiness, as \<^verbatim>\<open>if\<close>, \<^verbatim>\<open>!\<close>, \<^verbatim>\<open>&&\<close> and \<^verbatim>\<open>||\<close> test it.\<close>

fun js_truthy :: "jsval \<Rightarrow> bool" where
  "js_truthy JUndefined = False"
| "js_truthy JNull = False"
| "js_truthy (JBool b) = b"
| "js_truthy (JNum n) = (n \<noteq> NaN \<and> n \<noteq> Fin 0)"
| "js_truthy (JStr s) = (s \<noteq> [])"
| "js_truthy (JArr _) = True"
| "js_truthy (JObj _) = True"

text \<open>\<^verbatim>\<open>a || b\<close>.\<close>

definition js_or :: "jsval \<Rightarrow> jsval \<Rightarrow> jsval" where
  "js_or a b = (if js_truthy a then a else b)"

text \<open>
  The property read \<^verbatim>\<open>v.k\<close> on a value that is neither \<open>null\<close> nor \<open>undefined\<close>, for
  the keys the two files read (\<open>type\<close>, \<open>progress\<close>, \<open>stage\<close>, \<open>message\<close>, \<open>status\<close>,
  \<open>project_status\<close>, \<open>takeoff_result\<close>, \<open>project_id\<close>, \<open>detail\<close>, \<open>data\<close>): none of them is
  inherited from a prototype, so the read gives the own property of an object and
  \<open>undefined\<close> on anything else. The first binding of a key in the list is the
  property. On \<open>null\<close> and \<open>undefined\<close> the read raises a TypeError; the callers below
  test \<open>nullish\<close> where the source can reach that.
\<close>

fun js_get :: "jsval \<Rightarrow> string \<Rightarrow> jsval" where
  "js_get (JObj kvs) k = (case map_of kvs k of None \<Rightarrow> JUndefined | Some v \<Rightarrow> v)"
| "js_get _ k = JUndefined"

fun nullish :: "jsval \<Rightarrow> bool" where
  "nullish JUndefined = True"
| "nullish JNull = True"
| "nullish _ = False"

text \<open>The optional chain \<^verbatim>\<open>v?.k\<close>.\<close>

definition js_get_opt :: "jsval \<Rightarrow> string \<Rightarrow> jsval" where
  "js_get_opt v k = (if nullish v then JUndefined else js_get v k)"

text \<open>
  ToNumber, which \<^verbatim>\<open>Math.min\<close> applies to its arguments. On strings, arrays and
  objects the conversion is the runtime's (number syntax, ToPrimitive); it is the
  parameter \<open>conv\<close>, and \<open>None\<close> is the TypeError that ToPrimitive raises on an object
  whose \<open>valueOf\<close> and \<open>toString\<close> are both shadowed by data.
\<close>

fun to_number :: "(jsval \<Rightarrow> jsnum option) \<Rightarrow> jsval \<Rightarrow> jsnum option" where
  "to_number conv JUndefined = Some NaN"
| "to_number conv JNull = Some (Fin 0)"
| "to_number conv (JBool b) = Some (Fin (if b then 1 else 0))"
| "to_number conv (JNum n) = Some n"
| "to_number conv v = conv v"

section \<open>The socket listener (\<^verbatim>\<open>useWebSocket\<close>)\<close>

text \<open>
  The hook's state: the \<open>connected\<close> flag, the last decoded message (\<open>null\<close> at first)
  and the lines written with \<^verbatim>\<open>console.log\<close> and \<^verbatim>\<open>console.error\<close>.
\<close>

record socket =
  connected :: bool
  lastMessage :: jsval
  ws_console :: "string list"

definition useWebSocket_init :: socket where
  "useWebSocket_init = \<lparr>connected = False, lastMessage = JNull, ws_console = []\<rparr>"

definition onopen :: "socket \<Rightarrow> socket" where
  "onopen ws = ws\<lparr>connected := True, ws_console := ws_console ws @ [''WebSocket connected'']\<rparr>"

text \<open>
  \<^verbatim>\<open>onmessage\<close>: \<^verbatim>\<open>JSON.parse(event.data)\<close> is the runtime's; it is the parameter
  \<open>parse\<close>, with \<open>None\<close> for the SyntaxError it raises on a payload that is not JSON.
\<close>

definition onmessage :: "(string \<Rightarrow> jsval option) \<Rightarrow> string \<Rightarrow> socket \<Rightarrow> socket" where
  "onmessage parse data ws =
     (case parse data of
        Some d \<Rightarrow> ws\<lparr>lastMessage := d\<rparr>
      | None \<Rightarrow> ws\<lparr>ws_console := ws_console ws @ [''Error parsing WebSocket message:'']\<rparr>)"

definition onerror :: "socket \<Rightarrow> socket" where
  "onerror ws = ws\<lparr>ws_console := ws_console ws @ [''WebSocket error:''], connected := False\<rparr>"

definition onclose :: "socket \<Rightarrow> socket" where
  "onclose ws = ws\<lparr>connected := False, ws_console := ws_console ws @ [''WebSocket disconnected'']\<rparr>"

section \<open>The displayed progress (\<^verbatim>\<open>ProjectProcessing\<close>, the \<open>lastMessage\<close> effect)\<close>

text \<open>The \<open>progress\<close> state of the view: \<^verbatim>\<open>{ stage, progress, message }\<close>.\<close>

record progress_info =
  stage :: jsval
  progress :: jsnum
  message :: jsval

text \<open>\<^verbatim>\<open>useState({ stage: 'upload', progress: 0, message: 'Initializing...' })\<close>.\<close>

definition progress_init :: progress_info where
  "progress_init = \<lparr>stage = JStr ''upload'', progress = Fin 0, message = JStr ''Initializing...''\<rparr>"

text \<open>
  \<^verbatim>\<open>const newProgressValue = Math.max(0, Math.min(100, lastMessage.progress || 0))\<close>;
  \<open>None\<close> when the conversion raises.
\<close>

definition newProgressValue :: "(jsval \<Rightarrow> jsnum option) \<Rightarrow> jsval \<Rightarrow> jsnum option" where
  "newProgressValue conv msg =
     (case to_number conv (js_or (js_get msg ''progress'') (JNum (Fin 0))) of
        None \<Rightarrow> None
      | Some n \<Rightarrow> Some (js_max (Fin 0) (js_min (Fin 100) n)))"

text \<open>The updater passed to \<^verbatim>\<open>setProgress\<close>, applied to the previous state.\<close>

definition setProgress_updater ::
  "(jsval \<Rightarrow> jsnum option) \<Rightarrow> jsval \<Rightarrow> progress_info \<Rightarrow> progress_info option" where
  "setProgress_updater conv msg prev =
     (case newProgressValue conv msg of
        None \<Rightarrow> None
      | Some v \<Rightarrow>
          if js_ge v (progress prev) then
            Some \<lparr>stage = js_or (js_get msg ''stage'') (stage prev),
                  progress = v,
                  message = js_or (js_or (js_get msg ''message'') (message prev)) (JStr ''Processing...'')\<rparr>
          else
            Some \<lparr>stage = js_or (js_get msg ''stage'') (stage prev),
                  progress = progress prev,
                  message = js_or (js_or (js_get msg ''message'') (message prev)) (JStr ''Processing...'')\<rparr>)"

text \<open>
  The effect on \<open>lastMessage\<close>: only a truthy message of type \<open>progress\<close> reaches the
  updater. \<open>None\<close> is the exception leaving the updater.
\<close>

definition is_progress_message :: "jsval \<Rightarrow> bool" where
  "is_progress_message msg = (js_truthy msg \<and> js_get msg ''type'' = JStr ''progress'')"

definition lastMessage_effect ::
  "(jsval \<Rightarrow> jsnum option) \<Rightarrow> jsval \<Rightarrow> progress_info \<Rightarrow> progress_info option" where
  "lastMessage_effect conv msg prev =
     (if is_progress_message msg then setProgress_updater conv msg prev else Some prev)"

text \<open>
  The states displayed after each message of a sequence, one per message, up to the
  first message on which the updater raises.
\<close>

fun displayed :: "(jsval \<Rightarrow> jsnum option) \<Rightarrow> progress_info \<Rightarrow> jsval list \<Rightarrow> progress_info list" where
  "displayed conv prev [] = []"
| "displayed conv prev (m # ms) =
     (case lastMessage_effect conv m prev of
        None \<Rightarrow> []
      | Some s \<Rightarrow> s # displayed conv s ms)"

text \<open>A percentage: a finite number between 0 and 100.\<close>

fun percent :: "jsnum \<Rightarrow> bool" where
  "percent (Fin r) = (0 \<le> r \<and> r \<le> 100)"
| "percent _ = False"

text \<open>A progress packet as the backend sends it, with a numeric percentage.\<close>

definition packet :: "string \<Rightarrow> rat \<Rightarrow> string \<Rightarrow> jsval" where
  "packet st p txt =
     JObj [(''type'', JStr ''progress''), (''stage'', JStr st),
           (''progress'', JNum (Fin p)), (''message'', JStr txt)]"

section \<open>The processing view: polling and cancel\<close>

text \<open>
  The functions handed to \<^verbatim>\<open>setTimeout\<close>: \<^verbatim>\<open>navigate(`/projects/${id}`)\<close>, with the
  path, and the clear of the polling interval after five minutes.
\<close>

datatype callback = Navigate string | ClearPolling

text \<open>The calls of \<^verbatim>\<open>services/api\<close> the view makes, with their argument.\<close>

datatype request =
    ProcessTakeoff jsval
  | GetProject string
  | GetTakeoff string
  | CancelTakeoff jsval

text \<open>The reason of a rejected call: an error object with \<open>response\<close> and \<open>message\<close>.\<close>

record js_error =
  response :: jsval
  err_message :: jsval

text \<open>
  The view: the route parameter \<open>id\<close>, the React state (\<open>project\<close>, \<open>progress\<close>,
  \<open>isProcessing\<close>, \<open>isCancelling\<close>, \<open>error\<close>), the ref \<open>pollingIntervalRef.current\<close>
  (\<open>None\<close> is \<open>null\<close>), and what the view has asked of the runtime: the interval
  timers still alive, the \<^verbatim>\<open>setTimeout\<close> calls made (callback and delay in
  milliseconds), the requests issued, the console lines. An \<^verbatim>\<open>await\<close> suspends the
  function it is in; the last four fields count the suspended callers of
  \<^verbatim>\<open>processTakeoff\<close>, \<^verbatim>\<open>getProject\<close>, \<^verbatim>\<open>getTakeoff\<close> and \<^verbatim>\<open>cancelTakeoff\<close>.
\<close>

record view =
  id_param :: string
  project :: jsval
  progress_st :: progress_info
  isProcessing :: bool
  isCancelling :: bool
  error :: jsval
  pollingIntervalRef :: "nat option"
  next_timer :: nat
  intervals :: "nat list"
  scheduled :: "(callback \<times> nat) list"
  requests :: "request list"
  console :: "string list"
  awaiting_start :: nat
  awaiting_project :: nat
  awaiting_takeoff :: nat
  awaiting_cancel :: nat

text \<open>
  The view as mounted, with the project of \<^verbatim>\<open>location.state\<close> (or the one loaded by
  the first effect). Timer handles are positive, so a handle is truthy.
\<close>

definition initial_view :: "string \<Rightarrow> jsval \<Rightarrow> view" where
  "initial_view ident p =
     \<lparr>id_param = ident, project = p, progress_st = progress_init,
      isProcessing = False, isCancelling = False, error = JNull,
      pollingIntervalRef = None, next_timer = 1, intervals = [], scheduled = [],
      requests = [], console = [], awaiting_start = 0,
      awaiting_project = 0, awaiting_takeoff = 0, awaiting_cancel = 0\<rparr>"

text \<open>\<^verbatim>\<open>clearInterval(h)\<close>; on \<open>null\<close> it does nothing.\<close>

definition clearInterval :: "nat option \<Rightarrow> view \<Rightarrow> view" where
  "clearInterval h v =
     (case h of None \<Rightarrow> v | Some i \<Rightarrow> v\<lparr>intervals := removeAll i (intervals v)\<rparr>)"

text \<open>\<^verbatim>\<open>setTimeout(cb, ms)\<close>.\<close>

definition setTimeout :: "callback \<Rightarrow> nat \<Rightarrow> view \<Rightarrow> view" where
  "setTimeout cb ms v =
     v\<lparr>scheduled := scheduled v @ [(cb, ms)], next_timer := Suc (next_timer v)\<rparr>"

text \<open>\<^verbatim>\<open>err.response?.data?.detail || err.message || dflt\<close>.\<close>

definition error_text :: "js_error \<Rightarrow> string \<Rightarrow> jsval" where
  "error_text err dflt =
     js_or (js_or (js_get_opt (js_get_opt (response err) ''data'') ''detail'') (err_message err))
           (JStr dflt)"

text \<open>
  \<^verbatim>\<open>pollForCompletion\<close>: \<^verbatim>\<open>setInterval\<close> gives a fresh handle, stored in the ref;
  then the clear after \<^verbatim>\<open>5 * 60 * 1000\<close> milliseconds is scheduled.
\<close>

definition pollForCompletion :: "view \<Rightarrow> view" where
  "pollForCompletion v =
     setTimeout ClearPolling (5 * 60 * 1000)
       (v\<lparr>pollingIntervalRef := Some (next_timer v),
          intervals := intervals v @ [next_timer v],
          next_timer := Suc (next_timer v)\<rparr>)"

text \<open>The callback of that timeout: \<^verbatim>\<open>if (ref.current) clearInterval(ref.current)\<close>.\<close>

definition clear_after_timeout :: "view \<Rightarrow> view" where
  "clear_after_timeout v =
     (if pollingIntervalRef v \<noteq> None then clearInterval (pollingIntervalRef v) v else v)"

text \<open>
  \<^verbatim>\<open>startProcessing\<close> up to its \<^verbatim>\<open>await processTakeoff(project.project_id)\<close>, and its two
  continuations.
\<close>

definition startProcessing :: "view \<Rightarrow> view" where
  "startProcessing v =
     (if \<not> js_truthy (project v) then v
      else v\<lparr>isProcessing := True, error := JNull,
             requests := requests v @ [ProcessTakeoff (js_get (project v) ''project_id'')],
             awaiting_start := Suc (awaiting_start v)\<rparr>)"

definition startProcessing_resolved :: "view \<Rightarrow> view" where
  "startProcessing_resolved v = pollForCompletion v"

definition startProcessing_rejected :: "js_error \<Rightarrow> view \<Rightarrow> view" where
  "startProcessing_rejected err v =
     v\<lparr>error := error_text err ''Failed to start processing'', isProcessing := False\<rparr>"

text \<open>\<^verbatim>\<open>r.status || r.project_status\<close>, and the two tests made on it.\<close>

definition status_of :: "jsval \<Rightarrow> jsval" where
  "status_of r = js_or (js_get r ''status'') (js_get r ''project_status'')"

definition is_success :: "jsval \<Rightarrow> bool" where
  "is_success status =
     (status = JStr ''completed'' \<or> status = JStr ''expert_review'' \<or> status = JStr ''ai_complete'')"

definition is_failure :: "jsval \<Rightarrow> bool" where
  "is_failure status = (status = JStr ''cancelled'' \<or> status = JStr ''failed'')"

text \<open>
  The three statements of each success branch: clear the interval of the ref,
  \<^verbatim>\<open>setIsProcessing(false)\<close>, schedule the navigation after 2000 milliseconds.
\<close>

definition finish_success :: "view \<Rightarrow> view" where
  "finish_success v =
     setTimeout (Navigate (''/projects/'' @ id_param v)) 2000
       ((clearInterval (pollingIntervalRef v) v)\<lparr>isProcessing := False\<rparr>)"

text \<open>The three statements of each failure branch.\<close>

definition finish_failure :: "jsval \<Rightarrow> view \<Rightarrow> view" where
  "finish_failure status v =
     (clearInterval (pollingIntervalRef v) v)
       \<lparr>isProcessing := False,
        error := JStr (if status = JStr ''cancelled'' then ''Processing was cancelled''
                       else ''Processing failed'')\<rparr>"

text \<open>
  The interval callback, cut at its \<^verbatim>\<open>await\<close>s. \<open>poll_begin\<close>: the call of
  \<^verbatim>\<open>getProject(id)\<close>. \<open>poll_project_resolved\<close>: the rest of the \<^verbatim>\<open>try\<close> block, on the
  value received. \<open>poll_project_rejected\<close>: the \<^verbatim>\<open>catch\<close>, up to the call of
  \<^verbatim>\<open>getTakeoff(id)\<close>. \<open>poll_takeoff_resolved\<close>: the rest of the inner \<^verbatim>\<open>try\<close>; reading
  \<open>status\<close> of \<open>null\<close> or \<open>undefined\<close> raises, which the inner \<^verbatim>\<open>catch\<close> logs.
  \<open>poll_takeoff_rejected\<close>: the inner \<^verbatim>\<open>catch\<close>.
\<close>

definition poll_begin :: "view \<Rightarrow> view" where
  "poll_begin v =
     v\<lparr>requests := requests v @ [GetProject (id_param v)],
       awaiting_project := Suc (awaiting_project v)\<rparr>"

definition poll_project_resolved :: "jsval \<Rightarrow> view \<Rightarrow> view" where
  "poll_project_resolved p v =
     (if \<not> js_truthy p then v
      else if is_success (status_of p) then finish_success v
      else if is_failure (status_of p) then finish_failure (status_of p) v
      else if status_of p = JStr ''processing'' then
        (if js_truthy (js_get p ''takeoff_result'') then finish_success v else v)
      else v)"

definition poll_project_rejected :: "view \<Rightarrow> view" where
  "poll_project_rejected v =
     v\<lparr>requests := requests v @ [GetTakeoff (id_param v)],
       awaiting_takeoff := Suc (awaiting_takeoff v)\<rparr>"

definition poll_takeoff_rejected :: "view \<Rightarrow> view" where
  "poll_takeoff_rejected v = v\<lparr>console := console v @ [''Polling for project status...'']\<rparr>"

definition poll_takeoff_resolved :: "jsval \<Rightarrow> view \<Rightarrow> view" where
  "poll_takeoff_resolved t v =
     (if nullish t then poll_takeoff_rejected v
      else if is_success (status_of t) then finish_success v
      else if is_failure (status_of t) then finish_failure (status_of t) v
      else v)"

text \<open>
  \<^verbatim>\<open>handleCancel\<close>, cut at its \<^verbatim>\<open>await cancelTakeoff(project.project_id)\<close>. The
  argument \<open>ok\<close> is the answer to \<^verbatim>\<open>window.confirm\<close>.
\<close>

definition handleCancel :: "bool \<Rightarrow> view \<Rightarrow> view" where
  "handleCancel ok v =
     (if \<not> js_truthy (project v) \<or> \<not> isProcessing v then v
      else if \<not> ok then v
      else v\<lparr>isCancelling := True, error := JNull,
             requests := requests v @ [CancelTakeoff (js_get (project v) ''project_id'')],
             awaiting_cancel := Suc (awaiting_cancel v)\<rparr>)"

definition handleCancel_resolved :: "view \<Rightarrow> view" where
  "handleCancel_resolved v =
     setTimeout (Navigate (''/projects/'' @ id_param v)) 2000
       ((if pollingIntervalRef v \<noteq> None
         then (clearInterval (pollingIntervalRef v) v)\<lparr>pollingIntervalRef := None\<rparr>
         else v)
          \<lparr>isProcessing := False,
           progress_st := \<lparr>stage = JStr ''cancelled'', progress = Fin 0,
                            message = JStr ''Processing cancelled''\<rparr>\<rparr>)"

definition handleCancel_rejected :: "js_error \<Rightarrow> view \<Rightarrow> view" where
  "handleCancel_rejected err v =
     v\<lparr>error := error_text err ''Failed to cancel processing'', isCancelling := False\<rparr>"

text \<open>
  What can happen to a mounted view, apart from socket messages. A suspended call
  settles; the interval fires while it is alive, whether or not an earlier tick is
  still suspended; the five-minute timeout fires once it has been scheduled; the user
  clicks Cancel, which is rendered only while \<open>isProcessing\<close> and disabled while
  \<open>isCancelling\<close>. An event that cannot happen in a state leaves it as it is. Socket
  messages reach \<^verbatim>\<open>setProgress\<close> only (the effect above), which no function of this
  section reads; the session ends when the view is unmounted.
\<close>

datatype event =
    StartResolves
  | StartRejects js_error
  | IntervalFires
  | ProjectResolves jsval
  | ProjectRejects
  | TakeoffResolves jsval
  | TakeoffRejects
  | TimeoutFires
  | CancelClicked bool
  | CancelResolves
  | CancelRejects js_error

fun step :: "event \<Rightarrow> view \<Rightarrow> view" where
  "step StartResolves v =
     (if awaiting_start v = 0 then v
      else startProcessing_resolved (v\<lparr>awaiting_start := awaiting_start v - 1\<rparr>))"
| "step (StartRejects err) v =
     (if awaiting_start v = 0 then v
      else startProcessing_rejected err (v\<lparr>awaiting_start := awaiting_start v - 1\<rparr>))"
| "step IntervalFires v = (if intervals v = [] then v else poll_begin v)"
| "step (ProjectResolves p) v =
     (if awaiting_project v = 0 then v
      else poll_project_resolved p (v\<lparr>awaiting_project := awaiting_project v - 1\<rparr>))"
| "step ProjectRejects v =
     (if awaiting_project v = 0 then v
      else poll_project_rejected (v\<lparr>awaiting_project := awaiting_project v - 1\<rparr>))"
| "step (TakeoffResolves t) v =
     (if awaiting_takeoff v = 0 then v
      else poll_takeoff_resolved t (v\<lparr>awaiting_takeoff := awaiting_takeoff v - 1\<rparr>))"
| "step TakeoffRejects v =
     (if awaiting_takeoff v = 0 then v
      else poll_takeoff_rejected (v\<lparr>awaiting_takeoff := awaiting_takeoff v - 1\<rparr>))"
| "step TimeoutFires v =
     (if (ClearPolling, 300000) \<in> set (scheduled v) then clear_after_timeout v else v)"
| "step (CancelClicked ok) v =
     (if isProcessing v \<and> \<not> isCancelling v then handleCancel ok v else v)"
| "step CancelResolves v =
     (if awaiting_cancel v = 0 then v
      else handleCancel_resolved (v\<lparr>awaiting_cancel := awaiting_cancel v - 1\<rparr>))"
| "step (CancelRejects err) v =
     (if awaiting_cancel v = 0 then v
      else handleCancel_rejected err (v\<lparr>awaiting_cancel := awaiting_cancel v - 1\<rparr>))"

fun run :: "event list \<Rightarrow> view \<Rightarrow> view" where
  "run [] v = v"
| "run (e # es) v = run es (step e v)"

text \<open>
  The view after the effect on \<open>project\<close> has run: \<^verbatim>\<open>if (project && !isProcessing)
  startProcessing()\<close>. A processing session is a run of events from this state.
\<close>

definition mounted :: "string \<Rightarrow> jsval \<Rightarrow> view" where
  "mounted ident p =
     (if js_truthy p \<and> \<not> isProcessing (initial_view ident p)
      then startProcessing (initial_view ident p) else initial_view ident p)"

text \<open>The navigations among the scheduled callbacks.\<close>

fun is_navigation :: "callback \<times> nat \<Rightarrow> bool" where
  "is_navigation (Navigate _, _) = True"
| "is_navigation (ClearPolling, _) = False"

definition navigations :: "view \<Rightarrow> (callback \<times> nat) list" where
  "navigations v = filter is_navigation (scheduled v)"

text \<open>No call is suspended: nothing is in flight.\<close>

definition quiescent :: "view \<Rightarrow> bool" where
  "quiescent v =
     (awaiting_start v = 0 \<and> awaiting_project v = 0 \<and> awaiting_takeoff v = 0 \<and>
      awaiting_cancel v = 0)"

text \<open>
  A suspended tick receives the response \<open>r\<close>: the event \<open>e\<close> is the answer to its
  primary fetch or to its fallback fetch.
\<close>

definition tick_receives :: "event \<Rightarrow> jsval \<Rightarrow> view \<Rightarrow> bool" where
  "tick_receives e r v =
     (e = ProjectResolves r \<and> 0 < awaiting_project v \<or>
      e = TakeoffResolves r \<and> 0 < awaiting_takeoff v)"

text \<open>
  What holds of the timers in every state of a session: \<^verbatim>\<open>pollForCompletion\<close> runs at
  most once, and every interval alive is the one the ref holds.
\<close>

definition session_inv :: "view \<Rightarrow> bool" where
  "session_inv v =
     (awaiting_start v \<le> 1 \<and>
      (awaiting_start v = 1 \<longrightarrow> intervals v = [] \<and> (ClearPolling, 300000) \<notin> set (scheduled v)) \<and>
      (\<forall>i \<in> set (intervals v). pollingIntervalRef v = Some i) \<and>
      (intervals v \<noteq> [] \<longrightarrow> (ClearPolling, 300000) \<in> set (scheduled v)))"

section \<open>Sample inputs\<close>

text \<open>
  Two stand-ins for the runtime in the worked examples. \<open>sample_conv\<close> converts every
  string, array and object to \<open>NaN\<close>, as ToNumber does on \<open>"abc"\<close> and on \<open>{}\<close>; the
  examples only convert numbers. \<open>sample_parse\<close> decodes the frame \<open>null\<close> and rejects
  every other frame; the examples only need a frame that is not JSON.
\<close>

definition sample_conv :: "jsval \<Rightarrow> jsnum option" where
  "sample_conv v = Some NaN"

definition sample_parse :: "string \<Rightarrow> jsval option" where
  "sample_parse data = (if data = ''null'' then Some JNull else None)"

text \<open>
  A project as the backend returns it, a response carrying a status, and the error of
  a request that got no response.
\<close>

definition sample_project :: jsval where
  "sample_project = JObj [(''project_id'', JStr ''42''), (''status'', JStr ''uploaded'')]"

definition with_status :: "string \<Rightarrow> jsval" where
  "with_status st = JObj [(''project_id'', JStr ''42''), (''status'', JStr st)]"

definition network_error :: js_error where
  "network_error = \<lparr>response = JUndefined, err_message = JStr ''Network Error''\<rparr>"

section \<open>Properties of the displayed progress\<close>

lemma js_le_refl: "n \<noteq> NaN \<Longrightarrow> js_le n n"
  by (cases n) auto

lemma js_le_trans: "js_le a b \<Longrightarrow> js_le b c \<Longrightarrow> js_le a c"
  by (cases a; cases b; cases c) auto

lemma js_le_not_NaN: "js_le a b \<Longrightarrow> a \<noteq> NaN \<and> b \<noteq> NaN"
  by (cases a; cases b) auto

lemma clamp_cases:
  "js_max (Fin 0) (js_min (Fin 100) n) = NaN \<or> percent (js_max (Fin 0) (js_min (Fin 100) n))"
  by (cases n) (auto simp: js_max_def js_min_def)

lemma clamp_Fin: "js_max (Fin 0) (js_min (Fin 100) (Fin r)) = Fin (max 0 (min 100 r))"
  by (auto simp: js_max_def js_min_def)

lemma newProgressValue_cases:
  "newProgressValue conv msg = Some v \<Longrightarrow> v = NaN \<or> percent v"
  using clamp_cases by (auto simp: newProgressValue_def split: option.splits)

lemma updater_progress:
  assumes "setProgress_updater conv msg prev = Some s"
  shows "progress s = progress prev \<or> (js_ge (progress s) (progress prev) \<and> percent (progress s))"
proof -
  from assms obtain v where v: "newProgressValue conv msg = Some v"
    by (auto simp: setProgress_updater_def split: option.splits)
  show ?thesis
  proof (cases "js_ge v (progress prev)")
    case True
    then have "v \<noteq> NaN" using js_le_not_NaN by (auto simp: js_ge_def)
    with newProgressValue_cases [OF v] have "percent v" by simp
    with True assms v show ?thesis by (auto simp: setProgress_updater_def)
  next
    case False
    with assms v show ?thesis by (auto simp: setProgress_updater_def)
  qed
qed

lemma effect_progress:
  assumes "lastMessage_effect conv msg prev = Some s"
  shows "progress s = progress prev \<or> (js_ge (progress s) (progress prev) \<and> percent (progress s))"
  using assms updater_progress by (auto simp: lastMessage_effect_def split: if_splits)

lemma effect_ge:
  assumes "lastMessage_effect conv msg prev = Some s" and "progress prev \<noteq> NaN"
  shows "js_ge (progress s) (progress prev) \<and> progress s \<noteq> NaN"
  using effect_progress [OF assms(1)] assms(2) js_le_refl js_le_not_NaN
  by (auto simp: js_ge_def)

lemma effect_percent:
  assumes "lastMessage_effect conv msg prev = Some s" and "percent (progress prev)"
  shows "percent (progress s)"
  using effect_progress [OF assms(1)] assms(2) by auto

lemma displayed_ge_first:
  "progress prev \<noteq> NaN \<Longrightarrow> s \<in> set (displayed conv prev ms) \<Longrightarrow> js_ge (progress s) (progress prev)"
proof (induction ms arbitrary: prev)
  case Nil
  then show ?case by simp
next
  case (Cons m ms)
  show ?case
  proof (cases "lastMessage_effect conv m prev")
    case None
    with Cons.prems show ?thesis by simp
  next
    case (Some s1)
    from effect_ge [OF Some Cons.prems(1)]
    have ge: "js_ge (progress s1) (progress prev)" and nn: "progress s1 \<noteq> NaN" by auto
    from Cons.prems(2) Some have "s = s1 \<or> s \<in> set (displayed conv s1 ms)" by simp
    then show ?thesis
    proof
      assume "s = s1"
      with ge show ?thesis by simp
    next
      assume "s \<in> set (displayed conv s1 ms)"
      from Cons.IH [OF nn this] ge show ?thesis
        using js_le_trans by (auto simp: js_ge_def)
    qed
  qed
qed

lemma displayed_sorted:
  "progress prev \<noteq> NaN \<Longrightarrow>
   sorted_wrt (\<lambda>a b. js_le a b) (map progress (displayed conv prev msgs))"
proof (induction msgs arbitrary: prev)
  case Nil
  then show ?case by simp
next
  case (Cons m ms)
  show ?case
  proof (cases "lastMessage_effect conv m prev")
    case None
    then show ?thesis by simp
  next
    case (Some s1)
    from effect_ge [OF Some Cons.prems] have nn: "progress s1 \<noteq> NaN" by simp
    have "\<forall>s \<in> set (displayed conv s1 ms). js_le (progress s1) (progress s)"
      using displayed_ge_first [OF nn] by (auto simp: js_ge_def)
    with Cons.IH [OF nn] Some show ?thesis by simp
  qed
qed


lemma lower_value_keeps_progress:
  assumes "is_progress_message m" and "newProgressValue conv m = Some v"
    and "\<not> js_ge v (progress prev)"
  shows "map_option progress (lastMessage_effect conv m prev) = Some (progress prev)"
  using assms by (simp add: lastMessage_effect_def setProgress_updater_def)

text \<open>
  C1. Along any sequence of socket messages, starting from any displayed state whose
  percentage is a number (the initial state shows 0), the displayed percentages are
  non-decreasing: each one is at most (in the \<open><=\<close> of the source) every later one.
  A progress message whose clamped value \<open>v\<close> is not \<open>>=\<close> the displayed percentage
  leaves that percentage as it was.
\<close>

theorem displayed_progress_monotone:
  assumes "progress prev \<noteq> NaN"
  shows "sorted_wrt (\<lambda>a b. js_le a b) (map progress (displayed conv prev msgs)) \<and>
         (is_progress_message m \<and> newProgressValue conv m = Some v \<and> \<not> js_ge v (progress prev)
            \<longrightarrow> map_option progress (lastMessage_effect conv m prev) = Some (progress prev))"
  using displayed_sorted [OF assms] lower_value_keeps_progress by blast

theorem displayed_progress_monotone_witness:
  "progress progress_init \<noteq> NaN \<and>
   map progress (displayed sample_conv progress_init
     [packet ''extraction'' 10 ''a'', packet ''quantity'' 40 ''b'',
      packet ''cv'' 25 ''c'', packet ''specs'' 60 ''d''])
     = [Fin 10, Fin 40, Fin 40, Fin 60] \<and>
   sorted_wrt (\<lambda>a b. js_le a b) (map progress (displayed sample_conv progress_init
     [packet ''extraction'' 10 ''a'', packet ''quantity'' 40 ''b'',
      packet ''cv'' 25 ''c'', packet ''specs'' 60 ''d'']))"
  using displayed_progress_monotone [of progress_init sample_conv
     "[packet ''extraction'' 10 ''a'', packet ''quantity'' 40 ''b'',
       packet ''cv'' 25 ''c'', packet ''specs'' 60 ''d'']" JNull NaN]
  by (simp add: progress_init_def packet_def lastMessage_effect_def is_progress_message_def
      setProgress_updater_def newProgressValue_def js_or_def js_max_def js_min_def js_ge_def)


subsection \<open>Stage and message text\<close>

lemma updater_stage_message:
  assumes "setProgress_updater conv m prev = Some s"
  shows "stage s = js_or (js_get m ''stage'') (stage prev) \<and>
         message s = js_or (js_or (js_get m ''message'') (message prev)) (JStr ''Processing...'')"
  using assms by (auto simp: setProgress_updater_def split: option.splits if_splits)

text \<open>
  C6 as stated fails: a progress packet whose stage and message are empty strings
  leaves the stage and the message of the initial state on display, although its
  percentage is accepted.
\<close>

theorem stage_message_counterexample:
  "lastMessage_effect sample_conv (packet [] 25 []) progress_init =
     Some \<lparr>stage = JStr ''upload'', progress = Fin 25, message = JStr ''Initializing...''\<rparr>"
  by (simp add: progress_init_def packet_def lastMessage_effect_def is_progress_message_def
      setProgress_updater_def newProgressValue_def js_or_def js_max_def js_min_def js_ge_def)

text \<open>
  C6, amended. For every progress message the updater accepts, whether its percentage
  is taken or discarded: the displayed stage is the packet's stage when that is
  truthy and the previous stage otherwise; the displayed message is the packet's
  message when that is truthy, otherwise the previous message when that is truthy,
  otherwise \<open>Processing...\<close>.
\<close>

theorem stage_message_latest_truthy:
  assumes "is_progress_message m" and "lastMessage_effect conv m prev = Some s"
  shows "(js_truthy (js_get m ''stage'') \<longrightarrow> stage s = js_get m ''stage'') \<and>
         (\<not> js_truthy (js_get m ''stage'') \<longrightarrow> stage s = stage prev) \<and>
         (js_truthy (js_get m ''message'') \<longrightarrow> message s = js_get m ''message'') \<and>
         (\<not> js_truthy (js_get m ''message'') \<longrightarrow>
            message s = js_or (message prev) (JStr ''Processing...''))"
proof -
  from assms have "setProgress_updater conv m prev = Some s"
    by (simp add: lastMessage_effect_def)
  from updater_stage_message [OF this] show ?thesis
    by (simp add: js_or_def)
qed

theorem stage_message_latest_truthy_witness:
  "is_progress_message (packet ''cv'' 25 ''Detecting rooms'') \<and>
   lastMessage_effect sample_conv (packet ''cv'' 25 ''Detecting rooms'')
     \<lparr>stage = JStr ''quantity'', progress = Fin 40, message = JStr ''Counting''\<rparr>
     = Some \<lparr>stage = JStr ''cv'', progress = Fin 40, message = JStr ''Detecting rooms''\<rparr> \<and>
   stage \<lparr>stage = JStr ''cv'', progress = Fin 40, message = JStr ''Detecting rooms''\<rparr>
     = js_get (packet ''cv'' 25 ''Detecting rooms'') ''stage''"
  using stage_message_latest_truthy [of "packet ''cv'' 25 ''Detecting rooms''" sample_conv
     "\<lparr>stage = JStr ''quantity'', progress = Fin 40, message = JStr ''Counting''\<rparr>"
     "\<lparr>stage = JStr ''cv'', progress = Fin 40, message = JStr ''Detecting rooms''\<rparr>"]
  by (simp add: packet_def lastMessage_effect_def is_progress_message_def
      setProgress_updater_def newProgressValue_def js_or_def js_max_def js_min_def js_ge_def)

subsection \<open>The range of the displayed percentage\<close>

lemma displayed_percent:
  "percent (progress prev) \<Longrightarrow> s \<in> set (displayed conv prev msgs) \<Longrightarrow> percent (progress s)"
proof (induction msgs arbitrary: prev)
  case Nil
  then show ?case by simp
next
  case (Cons m ms)
  show ?case
  proof (cases "lastMessage_effect conv m prev")
    case None
    with Cons.prems show ?thesis by simp
  next
    case (Some s1)
    from effect_percent [OF Some Cons.prems(1)] have p1: "percent (progress s1)" .
    from Cons.prems(2) Some have "s = s1 \<or> s \<in> set (displayed conv s1 ms)" by simp
    with p1 Cons.IH [OF p1] show ?thesis by blast
  qed
qed

lemma newProgressValue_number:
  "js_get m ''progress'' = JNum n \<Longrightarrow>
   newProgressValue conv m =
     Some (js_max (Fin 0) (js_min (Fin 100) (if n = NaN then Fin 0 else n)))"
  by (cases n) (auto simp: newProgressValue_def js_or_def js_max_def js_min_def)

lemma newProgressValue_falsy:
  "\<not> js_truthy (js_get m ''progress'') \<Longrightarrow> newProgressValue conv m = Some (Fin 0)"
  by (simp add: newProgressValue_def js_or_def js_max_def js_min_def)

text \<open>
  C10. The value compared with the displayed percentage is the clamped one: a finite
  number \<open>r\<close> gives \<open>max 0 (min 100 r)\<close>, plus infinity gives 100, minus infinity gives
  0, and a missing or falsy field gives 0. Starting from a percentage in \<open>[0, 100]\<close>
  (the initial state shows 0), every state displayed along any sequence of messages
  has its percentage in \<open>[0, 100]\<close>.
\<close>

theorem displayed_progress_in_range:
  assumes "percent (progress prev)"
  shows "(\<forall>s \<in> set (displayed conv prev msgs). percent (progress s)) \<and>
         (js_get m ''progress'' = JNum (Fin r) \<longrightarrow>
            newProgressValue conv m = Some (Fin (max 0 (min 100 r)))) \<and>
         (js_get m ''progress'' = JNum PosInf \<longrightarrow> newProgressValue conv m = Some (Fin 100)) \<and>
         (js_get m ''progress'' = JNum NegInf \<longrightarrow> newProgressValue conv m = Some (Fin 0)) \<and>
         (\<not> js_truthy (js_get m ''progress'') \<longrightarrow> newProgressValue conv m = Some (Fin 0))"
proof -
  have a: "\<forall>s \<in> set (displayed conv prev msgs). percent (progress s)"
    using displayed_percent [OF assms] by blast
  have b: "js_get m ''progress'' = JNum (Fin r) \<longrightarrow>
            newProgressValue conv m = Some (Fin (max 0 (min 100 r)))"
    using newProgressValue_number [of m "Fin r" conv] clamp_Fin [of r] by simp
  have c: "js_get m ''progress'' = JNum PosInf \<longrightarrow> newProgressValue conv m = Some (Fin 100)"
    using newProgressValue_number [of m PosInf conv] by (simp add: js_max_def js_min_def)
  have d: "js_get m ''progress'' = JNum NegInf \<longrightarrow> newProgressValue conv m = Some (Fin 0)"
    using newProgressValue_number [of m NegInf conv] by (simp add: js_max_def js_min_def)
  from a b c d newProgressValue_falsy [of m conv] show ?thesis by blast
qed

theorem displayed_progress_in_range_witness:
  "percent (progress progress_init) \<and>
   map progress (displayed sample_conv progress_init
     [packet ''cv'' (-5) ''a'', packet ''cv'' 250 ''b'', packet ''cv'' 70 ''c''])
     = [Fin 0, Fin 100, Fin 100] \<and>
   list_all (\<lambda>s. percent (progress s)) (displayed sample_conv progress_init
     [packet ''cv'' (-5) ''a'', packet ''cv'' 250 ''b'', packet ''cv'' 70 ''c'']) \<and>
   js_get (packet ''cv'' 250 ''b'') ''progress'' = JNum (Fin 250) \<and>
   newProgressValue sample_conv (packet ''cv'' 250 ''b'') = Some (Fin 100) \<and>
   \<not> js_truthy (js_get (JObj [(''type'', JStr ''progress'')]) ''progress'') \<and>
   newProgressValue sample_conv (JObj [(''type'', JStr ''progress'')]) = Some (Fin 0)"
proof -
  have init: "percent (progress progress_init)"
    by (simp add: progress_init_def)
  have run: "map progress (displayed sample_conv progress_init
     [packet ''cv'' (-5) ''a'', packet ''cv'' 250 ''b'', packet ''cv'' 70 ''c''])
     = [Fin 0, Fin 100, Fin 100]"
    by (simp add: progress_init_def packet_def lastMessage_effect_def is_progress_message_def
      setProgress_updater_def newProgressValue_def js_or_def js_max_def js_min_def js_ge_def)
  have get: "js_get (packet ''cv'' 250 ''b'') ''progress'' = JNum (Fin 250)"
    by (simp add: packet_def)
  have missing: "\<not> js_truthy (js_get (JObj [(''type'', JStr ''progress'')]) ''progress'')"
    by simp
  from displayed_progress_in_range [OF init, of sample_conv
     "[packet ''cv'' (-5) ''a'', packet ''cv'' 250 ''b'', packet ''cv'' 70 ''c'']"
     "packet ''cv'' 250 ''b''" 250]
    displayed_progress_in_range [OF init, of sample_conv "[]"
     "JObj [(''type'', JStr ''progress'')]" 0]
    init run get missing
  show ?thesis by (simp add: list_all_iff)
qed

section \<open>Properties of the socket listener\<close>

text \<open>
  C7. A frame that \<^verbatim>\<open>JSON.parse\<close> rejects is logged with \<^verbatim>\<open>console.error\<close> and
  dropped: \<open>onmessage\<close> returns (nothing escapes its \<^verbatim>\<open>catch\<close>), and the last decoded
  message and the connection flag are those before the frame.
\<close>

theorem malformed_frame_dropped:
  assumes "parse data = None"
  shows "lastMessage (onmessage parse data ws) = lastMessage ws \<and>
         connected (onmessage parse data ws) = connected ws \<and>
         ws_console (onmessage parse data ws) =
           ws_console ws @ [''Error parsing WebSocket message:'']"
  using assms by (simp add: onmessage_def)

theorem malformed_frame_dropped_witness:
  "sample_parse ''{not json'' = None \<and>
   lastMessage (onmessage sample_parse ''{not json'' (onopen useWebSocket_init)) = JNull \<and>
   connected (onmessage sample_parse ''{not json'' (onopen useWebSocket_init)) = True \<and>
   ws_console (onmessage sample_parse ''{not json'' (onopen useWebSocket_init)) =
     [''WebSocket connected'', ''Error parsing WebSocket message:'']"
  using malformed_frame_dropped [of sample_parse "''{not json''" "onopen useWebSocket_init"]
  by (simp add: sample_parse_def onopen_def useWebSocket_init_def)


section \<open>Properties of polling and cancel\<close>

subsection \<open>What every state of a session satisfies\<close>

lemmas view_defs =
  clearInterval_def setTimeout_def pollForCompletion_def clear_after_timeout_def
  startProcessing_def startProcessing_resolved_def startProcessing_rejected_def
  finish_success_def finish_failure_def poll_begin_def poll_project_resolved_def
  poll_project_rejected_def poll_takeoff_rejected_def poll_takeoff_resolved_def
  handleCancel_def handleCancel_resolved_def handleCancel_rejected_def

lemma removeAll_only:
  "\<forall>i \<in> set xs. h = i \<Longrightarrow> removeAll h xs = []"
  by (induction xs) auto

lemma clear_ref_intervals:
  assumes "\<forall>i \<in> set (intervals v). pollingIntervalRef v = Some i"
  shows "intervals (clearInterval (pollingIntervalRef v) v) = []"
proof (cases "pollingIntervalRef v")
  case None
  with assms have "intervals v = []" by (cases "intervals v") auto
  with None show ?thesis by (simp add: clearInterval_def)
next
  case (Some h)
  with assms have "\<forall>i \<in> set (intervals v). i = h" by auto
  then have "removeAll h (intervals v) = []"
    by (simp add: removeAll_filter_not_eq filter_empty_conv)
  with Some show ?thesis by (simp add: clearInterval_def)
qed

lemma clear_ref_other_fields:
  "scheduled (clearInterval h v) = scheduled v \<and> requests (clearInterval h v) = requests v \<and>
   pollingIntervalRef (clearInterval h v) = pollingIntervalRef v \<and>
   awaiting_start (clearInterval h v) = awaiting_start v \<and>
   isProcessing (clearInterval h v) = isProcessing v \<and>
   progress_st (clearInterval h v) = progress_st v \<and> error (clearInterval h v) = error v \<and>
   id_param (clearInterval h v) = id_param v \<and>
   set (intervals (clearInterval h v)) \<subseteq> set (intervals v)"
  by (auto simp: clearInterval_def split: option.splits)

lemma mounted_inv: "session_inv (mounted ident p)"
  by (simp add: session_inv_def mounted_def initial_view_def startProcessing_def)

lemma step_inv:
  assumes "session_inv v"
  shows "session_inv (step e v)"
proof (cases e)
  case StartResolves
  with assms show ?thesis
    by (auto simp: session_inv_def view_defs)
next
  case (StartRejects err)
  with assms show ?thesis
    by (auto simp: session_inv_def view_defs)
next
  case IntervalFires
  with assms show ?thesis
    by (auto simp: session_inv_def view_defs)
next
  case (ProjectResolves r)
  with assms show ?thesis
    by (auto simp: session_inv_def view_defs split: option.splits)
next
  case ProjectRejects
  with assms show ?thesis
    by (auto simp: session_inv_def view_defs)
next
  case (TakeoffResolves r)
  with assms show ?thesis
    by (auto simp: session_inv_def view_defs split: option.splits)
next
  case TakeoffRejects
  with assms show ?thesis
    by (auto simp: session_inv_def view_defs)
next
  case TimeoutFires
  with assms show ?thesis
    by (auto simp: session_inv_def view_defs split: option.splits)
next
  case (CancelClicked ok)
  with assms show ?thesis
    by (auto simp: session_inv_def view_defs)
next
  case CancelResolves
  with assms show ?thesis
    by (auto simp: session_inv_def view_defs removeAll_only split: option.splits)
next
  case (CancelRejects err)
  with assms show ?thesis
    by (auto simp: session_inv_def view_defs)
qed

lemma run_inv: "session_inv v \<Longrightarrow> session_inv (run es v)"
  by (induction es arbitrary: v) (simp_all add: step_inv)

lemma session_reachable_inv: "session_inv (run es (mounted ident p))"
  by (rule run_inv [OF mounted_inv])

lemma step_constants: "id_param (step e v) = id_param v \<and> project (step e v) = project v"
  by (cases e) (auto simp: view_defs split: option.splits)

lemma run_constants: "id_param (run es v) = id_param v \<and> project (run es v) = project v"
  by (induction es arbitrary: v) (simp_all add: step_constants)

lemma mounted_constants: "id_param (mounted ident p) = ident \<and> project (mounted ident p) = p"
  by (simp add: mounted_def initial_view_def startProcessing_def)

lemma session_constants:
  "id_param (run es (mounted ident p)) = ident \<and> project (run es (mounted ident p)) = p"
  by (simp add: run_constants mounted_constants)


subsection \<open>The branches of a tick\<close>

lemma status_string_object:
  assumes "status_of r = JStr x"
  shows "js_truthy r \<and> \<not> nullish r"
  using assms by (cases r) (simp_all add: status_of_def js_or_def)

lemma success_not_failure: "is_success st \<Longrightarrow> \<not> is_failure st"
  by (auto simp: is_success_def is_failure_def)


lemma failure_is_string: "is_failure st \<Longrightarrow> \<exists>x. st = JStr x"
  by (auto simp: is_failure_def)

lemma finish_success_fields:
  assumes "session_inv v"
  shows "intervals (finish_success v) = [] \<and>
         scheduled (finish_success v) = scheduled v @ [(Navigate (''/projects/'' @ id_param v), 2000)] \<and>
         \<not> isProcessing (finish_success v) \<and>
         awaiting_start (finish_success v) = awaiting_start v \<and>
         awaiting_project (finish_success v) = awaiting_project v \<and>
         awaiting_takeoff (finish_success v) = awaiting_takeoff v \<and>
         awaiting_cancel (finish_success v) = awaiting_cancel v"
proof -
  from assms have "\<forall>i \<in> set (intervals v). pollingIntervalRef v = Some i"
    by (simp add: session_inv_def)
  from clear_ref_intervals [OF this] show ?thesis
    by (simp add: finish_success_def setTimeout_def) (simp add: clearInterval_def split: option.splits)
qed

lemma finish_failure_fields:
  assumes "session_inv v"
  shows "intervals (finish_failure st v) = [] \<and>
         scheduled (finish_failure st v) = scheduled v \<and>
         \<not> isProcessing (finish_failure st v) \<and>
         error (finish_failure st v) =
           JStr (if st = JStr ''cancelled'' then ''Processing was cancelled'' else ''Processing failed'')"
proof -
  from assms have "\<forall>i \<in> set (intervals v). pollingIntervalRef v = Some i"
    by (simp add: session_inv_def)
  from clear_ref_intervals [OF this] show ?thesis
    by (simp add: finish_failure_def) (simp add: clearInterval_def split: option.splits)
qed

lemma counter_update_inv:
  "session_inv v \<Longrightarrow> session_inv (v\<lparr>awaiting_project := n\<rparr>) \<and>
     session_inv (v\<lparr>awaiting_takeoff := n\<rparr>) \<and> session_inv (v\<lparr>awaiting_cancel := n\<rparr>)"
  by (simp add: session_inv_def)



lemma tick_failure_step:
  assumes "session_inv v" and "tick_receives e r v" and "is_failure (status_of r)"
  shows "step e v = finish_failure (status_of r) (v\<lparr>awaiting_project := awaiting_project v - 1\<rparr>) \<or>
         step e v = finish_failure (status_of r) (v\<lparr>awaiting_takeoff := awaiting_takeoff v - 1\<rparr>)"
proof -
  from failure_is_string [OF assms(3)] obtain x where "status_of r = JStr x" by blast
  from status_string_object [OF this] have r: "js_truthy r" "\<not> nullish r" by auto
  from assms(3) success_not_failure have ns: "\<not> is_success (status_of r)" by blast
  from assms(2) consider
      "e = ProjectResolves r" "0 < awaiting_project v"
    | "e = TakeoffResolves r" "0 < awaiting_takeoff v"
    by (auto simp: tick_receives_def)
  then show ?thesis
  proof cases
    case 1
    with r ns assms(3) show ?thesis by (simp add: poll_project_resolved_def)
  next
    case 2
    with r ns assms(3) show ?thesis by (simp add: poll_takeoff_resolved_def)
  qed
qed

lemma tick_failure_fields:
  assumes "session_inv v" and "tick_receives e r v" and "is_failure (status_of r)"
  shows "intervals (step e v) = [] \<and> scheduled (step e v) = scheduled v \<and>
         \<not> isProcessing (step e v) \<and>
         error (step e v) =
           JStr (if status_of r = JStr ''cancelled'' then ''Processing was cancelled''
                 else ''Processing failed'')"
proof -
  from counter_update_inv [OF assms(1)]
  have a: "session_inv (v\<lparr>awaiting_project := awaiting_project v - 1\<rparr>)"
    and b: "session_inv (v\<lparr>awaiting_takeoff := awaiting_takeoff v - 1\<rparr>)" by auto
  from tick_failure_step [OF assms]
    finish_failure_fields [OF a, of "status_of r"] finish_failure_fields [OF b, of "status_of r"]
  show ?thesis by auto
qed




lemmas run_defs =
  view_defs mounted_def initial_view_def progress_init_def status_of_def is_success_def
  is_failure_def js_or_def tick_receives_def navigations_def quiescent_def with_status_def
  sample_project_def network_error_def error_text_def js_get_opt_def

subsection \<open>Terminal failure\<close>

text \<open>
  C3. In any state of a session, when a suspended tick receives a response whose
  status is \<open>cancelled\<close> or \<open>failed\<close> (from the primary fetch or from the fallback), no
  interval is alive afterwards, \<open>isProcessing\<close> is false, the error shown is
  \<open>Processing was cancelled\<close> or \<open>Processing failed\<close>, and the tick has scheduled
  nothing: no navigation comes from that status.
\<close>

theorem failure_status_stops_polling:
  assumes "s = run es (mounted ident p)" and "tick_receives e r s"
    and "is_failure (status_of r)"
  shows "intervals (step e s) = [] \<and> \<not> isProcessing (step e s) \<and>
         error (step e s) =
           JStr (if status_of r = JStr ''cancelled'' then ''Processing was cancelled''
                 else ''Processing failed'') \<and>
         scheduled (step e s) = scheduled s"
proof -
  have "session_inv s" using assms(1) session_reachable_inv by simp
  from tick_failure_fields [OF this assms(2,3)] show ?thesis by simp
qed

theorem failure_status_stops_polling_witness:
  "tick_receives (TakeoffResolves (with_status ''cancelled'')) (with_status ''cancelled'')
     (run [StartResolves, IntervalFires, ProjectRejects] (mounted ''42'' sample_project)) \<and>
   is_failure (status_of (with_status ''cancelled'')) \<and>
   intervals (run [StartResolves, IntervalFires, ProjectRejects] (mounted ''42'' sample_project)) = [1] \<and>
   intervals (step (TakeoffResolves (with_status ''cancelled''))
     (run [StartResolves, IntervalFires, ProjectRejects] (mounted ''42'' sample_project))) = [] \<and>
   error (step (TakeoffResolves (with_status ''cancelled''))
     (run [StartResolves, IntervalFires, ProjectRejects] (mounted ''42'' sample_project)))
     = JStr ''Processing was cancelled'' \<and>
   scheduled (step (TakeoffResolves (with_status ''cancelled''))
     (run [StartResolves, IntervalFires, ProjectRejects] (mounted ''42'' sample_project)))
     = [(ClearPolling, 300000)]"
proof -
  have h1: "tick_receives (TakeoffResolves (with_status ''cancelled'')) (with_status ''cancelled'')
     (run [StartResolves, IntervalFires, ProjectRejects] (mounted ''42'' sample_project))"
    by (simp add: run_defs)
  have h2: "is_failure (status_of (with_status ''cancelled''))"
    by (simp add: run_defs)
  have before: "intervals (run [StartResolves, IntervalFires, ProjectRejects]
      (mounted ''42'' sample_project)) = [1] \<and>
    scheduled (run [StartResolves, IntervalFires, ProjectRejects]
      (mounted ''42'' sample_project)) = [(ClearPolling, 300000)]"
    by (simp add: run_defs)
  have st: "status_of (with_status ''cancelled'') = JStr ''cancelled''"
    by (simp add: run_defs)
  from failure_status_stops_polling [OF refl h1 h2] h1 h2 before st show ?thesis by simp
qed

subsection \<open>Terminal success\<close>




subsection \<open>Status \<open>processing\<close> with a takeoff result\<close>

text \<open>
  C8. The \<open>takeoff_result\<close> of a project is \<open>null\<close> or the result object, and the tick
  tests its presence with \<^verbatim>\<open>if (project.takeoff_result)\<close>: every object or array is
  truthy. In any state of a session, when a suspended tick receives from the primary
  fetch a project whose status is \<open>processing\<close>: if its \<open>takeoff_result\<close> is present
  (truthy), no interval is alive afterwards, \<open>isProcessing\<close> is false and the
  navigation to \<open>/projects/id\<close> is scheduled after 2000 milliseconds, although no
  terminal status was received; if it is absent (falsy), the tick changes nothing.
\<close>

theorem processing_with_result_navigates:
  assumes "s = run es (mounted ident p)" and "0 < awaiting_project s"
    and "status_of r = JStr ''processing''"
  shows "(js_truthy (js_get r ''takeoff_result'') \<longrightarrow>
            intervals (step (ProjectResolves r) s) = [] \<and>
            \<not> isProcessing (step (ProjectResolves r) s) \<and>
            scheduled (step (ProjectResolves r) s) =
              scheduled s @ [(Navigate (''/projects/'' @ ident), 2000)]) \<and>
         (\<not> js_truthy (js_get r ''takeoff_result'') \<longrightarrow>
            step (ProjectResolves r) s = s\<lparr>awaiting_project := awaiting_project s - 1\<rparr>) \<and>
         (\<forall>kvs. js_truthy (JObj kvs)) \<and> (\<forall>xs. js_truthy (JArr xs))"
proof -
  have inv: "session_inv (s\<lparr>awaiting_project := awaiting_project s - 1\<rparr>)"
    using assms(1) session_reachable_inv counter_update_inv by simp
  have ident: "id_param s = ident" using assms(1) session_constants by simp
  from status_string_object [OF assms(3)] have r: "js_truthy r" by simp
  have ns: "\<not> is_success (status_of r)" "\<not> is_failure (status_of r)"
    using assms(3) by (simp_all add: is_success_def is_failure_def)
  have truthy: "js_truthy (js_get r ''takeoff_result'') \<longrightarrow>
      step (ProjectResolves r) s = finish_success (s\<lparr>awaiting_project := awaiting_project s - 1\<rparr>)"
    using assms(2,3) r ns by (simp add: poll_project_resolved_def)
  have falsy: "\<not> js_truthy (js_get r ''takeoff_result'') \<longrightarrow>
      step (ProjectResolves r) s = s\<lparr>awaiting_project := awaiting_project s - 1\<rparr>"
    using assms(2,3) r ns by (simp add: poll_project_resolved_def)
  from truthy falsy finish_success_fields [OF inv] ident show ?thesis by simp
qed

theorem processing_with_result_navigates_witness:
  "0 < awaiting_project (run [StartResolves, IntervalFires] (mounted ''42'' sample_project)) \<and>
   status_of (JObj [(''status'', JStr ''processing''), (''takeoff_result'', JObj [])])
     = JStr ''processing'' \<and>
   js_truthy (js_get (JObj [(''status'', JStr ''processing''), (''takeoff_result'', JObj [])])
     ''takeoff_result'') \<and>
   intervals (run [StartResolves, IntervalFires] (mounted ''42'' sample_project)) = [1] \<and>
   intervals (step (ProjectResolves
       (JObj [(''status'', JStr ''processing''), (''takeoff_result'', JObj [])]))
     (run [StartResolves, IntervalFires] (mounted ''42'' sample_project))) = [] \<and>
   scheduled (step (ProjectResolves
       (JObj [(''status'', JStr ''processing''), (''takeoff_result'', JObj [])]))
     (run [StartResolves, IntervalFires] (mounted ''42'' sample_project)))
     = [(ClearPolling, 300000), (Navigate ''/projects/42'', 2000)]"
proof -
  have h1: "0 < awaiting_project (run [StartResolves, IntervalFires] (mounted ''42'' sample_project))"
    by (simp add: run_defs)
  have h2: "status_of (JObj [(''status'', JStr ''processing''), (''takeoff_result'', JObj [])])
     = JStr ''processing''"
    by (simp add: run_defs)
  have before: "intervals (run [StartResolves, IntervalFires] (mounted ''42'' sample_project)) = [1] \<and>
    scheduled (run [StartResolves, IntervalFires] (mounted ''42'' sample_project))
      = [(ClearPolling, 300000)]"
    by (simp add: run_defs)
  from processing_with_result_navigates [OF refl h1 h2] h1 h2 before show ?thesis by simp
qed

subsection \<open>Cancel\<close>

lemma step_isProcessing: "isProcessing (step e v) \<Longrightarrow> isProcessing v"
  by (cases e) (auto simp: view_defs split: option.splits if_splits)

lemma run_isProcessing: "isProcessing (run es v) \<Longrightarrow> isProcessing v"
  by (induction es arbitrary: v) (auto dest: step_isProcessing)

lemma session_isProcessing:
  assumes "isProcessing (run es (mounted ident p))"
  shows "js_truthy p"
proof -
  from run_isProcessing [OF assms] show ?thesis
    by (auto simp: mounted_def initial_view_def split: if_splits)
qed

lemma cancel_resolved_fields:
  assumes "session_inv v"
  shows "intervals (handleCancel_resolved v) = [] \<and> \<not> isProcessing (handleCancel_resolved v) \<and>
         pollingIntervalRef (handleCancel_resolved v) = None \<and>
         progress_st (handleCancel_resolved v) =
           \<lparr>stage = JStr ''cancelled'', progress = Fin 0, message = JStr ''Processing cancelled''\<rparr> \<and>
         scheduled (handleCancel_resolved v) =
           scheduled v @ [(Navigate (''/projects/'' @ id_param v), 2000)]"
proof -
  from assms have all: "\<forall>i \<in> set (intervals v). pollingIntervalRef v = Some i"
    by (simp add: session_inv_def)
  show ?thesis
  proof (cases "pollingIntervalRef v")
    case None
    with all have "intervals v = []" by (cases "intervals v") auto
    with None show ?thesis by (simp add: handleCancel_resolved_def setTimeout_def)
  next
    case (Some h)
    with all have "removeAll h (intervals v) = []" by (simp add: removeAll_only)
    with Some show ?thesis
      by (simp add: handleCancel_resolved_def setTimeout_def clearInterval_def)
  qed
qed

text \<open>
  C9. In any state of a session, when the suspended \<^verbatim>\<open>cancelTakeoff\<close> call of a
  confirmed cancel resolves, the navigation to \<open>/projects/id\<close> is scheduled after 2000
  milliseconds; in particular a click on Cancel that is confirmed and whose request
  succeeds at once schedules it.
\<close>

theorem cancel_success_navigates:
  assumes "s = run es (mounted ident p)"
  shows "(0 < awaiting_cancel s \<longrightarrow>
            scheduled (step CancelResolves s) =
              scheduled s @ [(Navigate (''/projects/'' @ ident), 2000)]) \<and>
         (isProcessing s \<and> \<not> isCancelling s \<longrightarrow>
            scheduled (run [CancelClicked True, CancelResolves] s) =
              scheduled s @ [(Navigate (''/projects/'' @ ident), 2000)])"
proof -
  have inv: "session_inv s" using assms session_reachable_inv by simp
  have ident: "id_param s = ident" "project s = p" using assms session_constants by simp_all
  have a: "0 < awaiting_cancel s \<longrightarrow>
            scheduled (step CancelResolves s) =
              scheduled s @ [(Navigate (''/projects/'' @ ident), 2000)]"
    using cancel_resolved_fields [OF counter_update_inv [OF inv, THEN conjunct2, THEN conjunct2],
        of "awaiting_cancel s - 1"] ident
    by simp
  have b: "isProcessing s \<and> \<not> isCancelling s \<longrightarrow>
            scheduled (run [CancelClicked True, CancelResolves] s) =
              scheduled s @ [(Navigate (''/projects/'' @ ident), 2000)]"
  proof
    assume c: "isProcessing s \<and> \<not> isCancelling s"
    then have "isProcessing (run es (mounted ident p))" using assms by simp
    from session_isProcessing [OF this] have p: "js_truthy (project s)" using ident by simp
    let ?s1 = "step (CancelClicked True) s"
    from c p have s1: "0 < awaiting_cancel ?s1" "scheduled ?s1 = scheduled s" "id_param ?s1 = ident"
      using ident by (simp_all add: handleCancel_def)
    have inv1: "session_inv ?s1" by (rule step_inv [OF inv])
    from cancel_resolved_fields [OF counter_update_inv [OF inv1, THEN conjunct2, THEN conjunct2],
        of "awaiting_cancel ?s1 - 1"] s1
    have "scheduled (step CancelResolves ?s1) =
            scheduled s @ [(Navigate (''/projects/'' @ ident), 2000)]"
      by simp
    then show "scheduled (run [CancelClicked True, CancelResolves] s) =
              scheduled s @ [(Navigate (''/projects/'' @ ident), 2000)]"
      by simp
  qed
  from a b show ?thesis by blast
qed

theorem cancel_success_navigates_witness:
  "isProcessing (run [StartResolves, IntervalFires] (mounted ''42'' sample_project)) \<and>
   \<not> isCancelling (run [StartResolves, IntervalFires] (mounted ''42'' sample_project)) \<and>
   0 < awaiting_cancel (run [StartResolves, IntervalFires, CancelClicked True]
                          (mounted ''42'' sample_project)) \<and>
   scheduled (run [CancelClicked True, CancelResolves]
     (run [StartResolves, IntervalFires] (mounted ''42'' sample_project)))
     = [(ClearPolling, 300000), (Navigate ''/projects/42'', 2000)] \<and>
   scheduled (step CancelResolves
     (run [StartResolves, IntervalFires, CancelClicked True] (mounted ''42'' sample_project)))
     = [(ClearPolling, 300000), (Navigate ''/projects/42'', 2000)]"
proof -
  have h: "isProcessing (run [StartResolves, IntervalFires] (mounted ''42'' sample_project)) \<and>
   \<not> isCancelling (run [StartResolves, IntervalFires] (mounted ''42'' sample_project))"
    by (simp add: run_defs)
  have h2: "0 < awaiting_cancel (run [StartResolves, IntervalFires, CancelClicked True]
                          (mounted ''42'' sample_project))"
    by (simp add: run_defs)
  have before: "scheduled (run [StartResolves, IntervalFires] (mounted ''42'' sample_project))
      = [(ClearPolling, 300000)] \<and>
    scheduled (run [StartResolves, IntervalFires, CancelClicked True]
      (mounted ''42'' sample_project)) = [(ClearPolling, 300000)]"
    by (simp add: run_defs)
  from cancel_success_navigates [OF refl, of "[StartResolves, IntervalFires]" "''42''" sample_project]
    cancel_success_navigates [OF refl, of "[StartResolves, IntervalFires, CancelClicked True]"
      "''42''" sample_project]
    h h2 before
  show ?thesis by simp
qed


text \<open>
  C5 as stated fails: a confirmed cancel issues the request and leaves the interval
  alive while the request is in flight, so a tick can still fire and fetch the
  status; and when the request fails the interval stays alive.
\<close>

theorem cancel_keeps_polling_counterexample:
  "intervals (run [StartResolves, CancelClicked True] (mounted ''42'' sample_project)) = [1] \<and>
   requests (run [StartResolves, CancelClicked True, IntervalFires]
               (mounted ''42'' sample_project))
     = [ProcessTakeoff (JStr ''42''), CancelTakeoff (JStr ''42''), GetProject ''42''] \<and>
   intervals (run [StartResolves, CancelClicked True, CancelRejects network_error]
                (mounted ''42'' sample_project)) = [1]"
  by (simp add: run_defs)

text \<open>
  C5, amended. In any state of a session: a click on Cancel that is confirmed, while
  \<open>isProcessing\<close> and no cancel is under way, issues the cancellation request and
  changes nothing else but \<open>isCancelling\<close> and the error (cleared); polling is not
  touched. When the request succeeds, no interval is alive afterwards, \<open>isProcessing\<close>
  is false and the displayed state is stage \<open>cancelled\<close>, 0 percent, \<open>Processing
  cancelled\<close>. When it fails, the error shown is the detail of the response, or the
  message of the error, or \<open>Failed to cancel processing\<close> (a truthy value in each
  case), the displayed progress and the polling are as before, \<open>isCancelling\<close> is
  false, and while \<open>isProcessing\<close> a new confirmed click issues the request again.
\<close>

theorem cancel_requests_then_stops:
  assumes "s = run es (mounted ident p)"
  shows "(isProcessing s \<and> \<not> isCancelling s \<longrightarrow>
            step (CancelClicked True) s =
              s\<lparr>isCancelling := True, error := JNull,
                requests := requests s @ [CancelTakeoff (js_get p ''project_id'')],
                awaiting_cancel := Suc (awaiting_cancel s)\<rparr>) \<and>
         (0 < awaiting_cancel s \<longrightarrow>
            intervals (step CancelResolves s) = [] \<and>
            \<not> isProcessing (step CancelResolves s) \<and>
            progress_st (step CancelResolves s) =
              \<lparr>stage = JStr ''cancelled'', progress = Fin 0,
               message = JStr ''Processing cancelled''\<rparr>) \<and>
         (0 < awaiting_cancel s \<longrightarrow>
            error (step (CancelRejects err) s) = error_text err ''Failed to cancel processing'' \<and>
            js_truthy (error (step (CancelRejects err) s)) \<and>
            progress_st (step (CancelRejects err) s) = progress_st s \<and>
            intervals (step (CancelRejects err) s) = intervals s \<and>
            \<not> isCancelling (step (CancelRejects err) s) \<and>
            (isProcessing s \<longrightarrow>
               requests (step (CancelClicked True) (step (CancelRejects err) s)) =
                 requests s @ [CancelTakeoff (js_get p ''project_id'')]))"
proof -
  have inv: "session_inv s" using assms session_reachable_inv by simp
  have same: "id_param s = ident" "project s = p" using assms session_constants by simp_all
  have truthy: "isProcessing s \<longrightarrow> js_truthy p"
    using assms session_isProcessing by blast
  have a: "isProcessing s \<and> \<not> isCancelling s \<longrightarrow>
            step (CancelClicked True) s =
              s\<lparr>isCancelling := True, error := JNull,
                requests := requests s @ [CancelTakeoff (js_get p ''project_id'')],
                awaiting_cancel := Suc (awaiting_cancel s)\<rparr>"
    using truthy same by (simp add: handleCancel_def)
  have b: "0 < awaiting_cancel s \<longrightarrow>
            intervals (step CancelResolves s) = [] \<and>
            \<not> isProcessing (step CancelResolves s) \<and>
            progress_st (step CancelResolves s) =
              \<lparr>stage = JStr ''cancelled'', progress = Fin 0,
               message = JStr ''Processing cancelled''\<rparr>"
    using cancel_resolved_fields [OF counter_update_inv [OF inv, THEN conjunct2, THEN conjunct2],
        of "awaiting_cancel s - 1"]
    by simp
  have c: "0 < awaiting_cancel s \<longrightarrow>
            error (step (CancelRejects err) s) = error_text err ''Failed to cancel processing'' \<and>
            js_truthy (error (step (CancelRejects err) s)) \<and>
            progress_st (step (CancelRejects err) s) = progress_st s \<and>
            intervals (step (CancelRejects err) s) = intervals s \<and>
            \<not> isCancelling (step (CancelRejects err) s) \<and>
            (isProcessing s \<longrightarrow>
               requests (step (CancelClicked True) (step (CancelRejects err) s)) =
                 requests s @ [CancelTakeoff (js_get p ''project_id'')])"
    using truthy same
    by (simp add: handleCancel_rejected_def handleCancel_def error_text_def js_or_def)
  from a b c show ?thesis by blast
qed

theorem cancel_requests_then_stops_witness:
  "isProcessing (run [StartResolves, IntervalFires] (mounted ''42'' sample_project)) \<and>
   \<not> isCancelling (run [StartResolves, IntervalFires] (mounted ''42'' sample_project)) \<and>
   requests (step (CancelClicked True)
       (run [StartResolves, IntervalFires] (mounted ''42'' sample_project)))
     = [ProcessTakeoff (JStr ''42''), GetProject ''42'', CancelTakeoff (JStr ''42'')] \<and>
   intervals (step (CancelClicked True)
       (run [StartResolves, IntervalFires] (mounted ''42'' sample_project))) = [1] \<and>
   0 < awaiting_cancel (run [StartResolves, IntervalFires, CancelClicked True]
                          (mounted ''42'' sample_project)) \<and>
   intervals (step CancelResolves
       (run [StartResolves, IntervalFires, CancelClicked True] (mounted ''42'' sample_project)))
     = [] \<and>
   progress_st (step CancelResolves
       (run [StartResolves, IntervalFires, CancelClicked True] (mounted ''42'' sample_project)))
     = \<lparr>stage = JStr ''cancelled'', progress = Fin 0, message = JStr ''Processing cancelled''\<rparr> \<and>
   error (step (CancelRejects network_error)
       (run [StartResolves, IntervalFires, CancelClicked True] (mounted ''42'' sample_project)))
     = JStr ''Network Error'' \<and>
   progress_st (step (CancelRejects network_error)
       (run [StartResolves, IntervalFires, CancelClicked True] (mounted ''42'' sample_project)))
     = progress_init \<and>
   intervals (step (CancelRejects network_error)
       (run [StartResolves, IntervalFires, CancelClicked True] (mounted ''42'' sample_project)))
     = [1] \<and>
   requests (step (CancelClicked True) (step (CancelRejects network_error)
       (run [StartResolves, IntervalFires, CancelClicked True] (mounted ''42'' sample_project))))
     = [ProcessTakeoff (JStr ''42''), GetProject ''42'', CancelTakeoff (JStr ''42''),
        CancelTakeoff (JStr ''42'')]"
proof -
  define s where "s = run [StartResolves, IntervalFires] (mounted ''42'' sample_project)"
  define t where
    "t = run [StartResolves, IntervalFires, CancelClicked True] (mounted ''42'' sample_project)"
  have hs: "isProcessing s" "\<not> isCancelling s" "intervals s = [1]"
    "requests s = [ProcessTakeoff (JStr ''42''), GetProject ''42'']"
    by (simp_all add: s_def run_defs)
  have ht: "0 < awaiting_cancel t" "isProcessing t" "intervals t = [1]"
    "requests t = [ProcessTakeoff (JStr ''42''), GetProject ''42'', CancelTakeoff (JStr ''42'')]"
    "progress_st t = progress_init"
    by (simp_all add: t_def run_defs)
  have vals: "js_get sample_project ''project_id'' = JStr ''42''"
    "error_text network_error ''Failed to cancel processing'' = JStr ''Network Error''"
    by (simp_all add: run_defs)
  from cancel_requests_then_stops [OF s_def, of network_error] hs
  have "step (CancelClicked True) s =
          s\<lparr>isCancelling := True, error := JNull,
            requests := requests s @ [CancelTakeoff (js_get sample_project ''project_id'')],
            awaiting_cancel := Suc (awaiting_cancel s)\<rparr>"
    by blast
  then have a: "requests (step (CancelClicked True) s)
        = [ProcessTakeoff (JStr ''42''), GetProject ''42'', CancelTakeoff (JStr ''42'')]"
    "intervals (step (CancelClicked True) s) = [1]"
    using hs vals by (simp_all del: step.simps)
  from cancel_requests_then_stops [OF t_def, of network_error] ht(1,2)
  have b: "intervals (step CancelResolves t) = []"
    "progress_st (step CancelResolves t) =
       \<lparr>stage = JStr ''cancelled'', progress = Fin 0, message = JStr ''Processing cancelled''\<rparr>"
    "error (step (CancelRejects network_error) t) =
       error_text network_error ''Failed to cancel processing''"
    "progress_st (step (CancelRejects network_error) t) = progress_st t"
    "intervals (step (CancelRejects network_error) t) = intervals t"
    "requests (step (CancelClicked True) (step (CancelRejects network_error) t)) =
       requests t @ [CancelTakeoff (js_get sample_project ''project_id'')]"
    by blast+
  from hs(1,2) ht(1) a b show ?thesis
    unfolding s_def [symmetric] t_def [symmetric]
    by (simp only: ht vals append.simps simp_thms)
qed

subsection \<open>Fallback fetch and the five-minute ceiling\<close>

lemma stopped_step:
  "intervals v = [] \<Longrightarrow> awaiting_start v = 0 \<Longrightarrow>
   intervals (step e v) = [] \<and> awaiting_start (step e v) = 0"
  by (cases e) (auto simp: view_defs split: option.splits)

lemma stopped_run:
  "intervals v = [] \<Longrightarrow> awaiting_start v = 0 \<Longrightarrow> intervals (run es v) = []"
  by (induction es arbitrary: v) (simp_all add: stopped_step)

lemma timeout_stops:
  assumes "session_inv v" and "(ClearPolling, 300000) \<in> set (scheduled v)"
  shows "intervals (step TimeoutFires v) = [] \<and> awaiting_start (step TimeoutFires v) = 0"
proof -
  from assms have all: "\<forall>i \<in> set (intervals v). pollingIntervalRef v = Some i"
    and st: "awaiting_start v = 0"
    by (auto simp: session_inv_def)
  from clear_ref_intervals [OF all] all have "intervals (clear_after_timeout v) = []"
    by (cases "intervals v") (auto simp: clear_after_timeout_def)
  with assms(2) st show ?thesis
    by (simp add: clear_after_timeout_def clearInterval_def split: option.splits)
qed

text \<open>
  C4. In any state of a session: when the primary fetch of a suspended tick fails,
  the tick issues the fallback fetch \<^verbatim>\<open>getTakeoff(id)\<close> and waits for it, touching
  nothing else; when the fallback fails too, the tick only writes a console line:
  interval, error, \<open>isProcessing\<close> and scheduled callbacks are as before, so polling
  goes on. Whenever an interval is alive, the clear after 300000 milliseconds (five
  minutes) has been scheduled; and once that timeout fires, no interval is alive,
  whatever events follow.
\<close>

theorem fallback_then_ceiling:
  assumes "s = run es (mounted ident p)"
  shows "(0 < awaiting_project s \<longrightarrow>
            step ProjectRejects s =
              s\<lparr>awaiting_project := awaiting_project s - 1,
                requests := requests s @ [GetTakeoff ident],
                awaiting_takeoff := Suc (awaiting_takeoff s)\<rparr>) \<and>
         (0 < awaiting_takeoff s \<longrightarrow>
            step TakeoffRejects s =
              s\<lparr>awaiting_takeoff := awaiting_takeoff s - 1,
                console := console s @ [''Polling for project status...'']\<rparr>) \<and>
         (intervals s \<noteq> [] \<longrightarrow> (ClearPolling, 300000) \<in> set (scheduled s)) \<and>
         ((ClearPolling, 300000) \<in> set (scheduled s) \<longrightarrow>
            (\<forall>es'. intervals (run es' (step TimeoutFires s)) = []))"
proof -
  have inv: "session_inv s" using assms session_reachable_inv by simp
  have ident: "id_param s = ident" using assms session_constants by simp
  have a: "0 < awaiting_project s \<longrightarrow>
            step ProjectRejects s =
              s\<lparr>awaiting_project := awaiting_project s - 1,
                requests := requests s @ [GetTakeoff ident],
                awaiting_takeoff := Suc (awaiting_takeoff s)\<rparr>"
    using ident by (simp add: poll_project_rejected_def)
  have b: "0 < awaiting_takeoff s \<longrightarrow>
            step TakeoffRejects s =
              s\<lparr>awaiting_takeoff := awaiting_takeoff s - 1,
                console := console s @ [''Polling for project status...'']\<rparr>"
    by (simp add: poll_takeoff_rejected_def)
  have c: "intervals s \<noteq> [] \<longrightarrow> (ClearPolling, 300000) \<in> set (scheduled s)"
    using inv by (simp add: session_inv_def)
  have d: "(ClearPolling, 300000) \<in> set (scheduled s) \<longrightarrow>
            (\<forall>es'. intervals (run es' (step TimeoutFires s)) = [])"
    using timeout_stops [OF inv] stopped_run by blast
  from a b c d show ?thesis by blast
qed

theorem fallback_then_ceiling_witness:
  "0 < awaiting_project (run [StartResolves, IntervalFires] (mounted ''42'' sample_project)) \<and>
   requests (step ProjectRejects
       (run [StartResolves, IntervalFires] (mounted ''42'' sample_project)))
     = [ProcessTakeoff (JStr ''42''), GetProject ''42'', GetTakeoff ''42''] \<and>
   0 < awaiting_takeoff (run [StartResolves, IntervalFires, ProjectRejects]
                           (mounted ''42'' sample_project)) \<and>
   intervals (step TakeoffRejects
       (run [StartResolves, IntervalFires, ProjectRejects] (mounted ''42'' sample_project)))
     = [1] \<and>
   console (step TakeoffRejects
       (run [StartResolves, IntervalFires, ProjectRejects] (mounted ''42'' sample_project)))
     = [''Polling for project status...''] \<and>
   (ClearPolling, 300000) \<in> set (scheduled
       (run [StartResolves, IntervalFires, ProjectRejects] (mounted ''42'' sample_project))) \<and>
   intervals (run [IntervalFires, ProjectRejects, TakeoffRejects]
     (step TimeoutFires
       (run [StartResolves, IntervalFires, ProjectRejects] (mounted ''42'' sample_project))))
     = []"
proof -
  define s where "s = run [StartResolves, IntervalFires] (mounted ''42'' sample_project)"
  define t where
    "t = run [StartResolves, IntervalFires, ProjectRejects] (mounted ''42'' sample_project)"
  have hs: "0 < awaiting_project s"
    "requests s = [ProcessTakeoff (JStr ''42''), GetProject ''42'']"
    by (simp_all add: s_def run_defs)
  have ht: "0 < awaiting_takeoff t" "intervals t = [1]" "console t = []"
    "(ClearPolling, 300000) \<in> set (scheduled t)"
    by (simp_all add: t_def run_defs)
  from fallback_then_ceiling [OF s_def] hs(1)
  have "step ProjectRejects s =
          s\<lparr>awaiting_project := awaiting_project s - 1,
            requests := requests s @ [GetTakeoff ''42''],
            awaiting_takeoff := Suc (awaiting_takeoff s)\<rparr>"
    by blast
  then have a: "requests (step ProjectRejects s)
      = [ProcessTakeoff (JStr ''42''), GetProject ''42'', GetTakeoff ''42'']"
    using hs(2) by (simp del: step.simps)
  from fallback_then_ceiling [OF t_def] ht(1)
  have "step TakeoffRejects t =
          t\<lparr>awaiting_takeoff := awaiting_takeoff t - 1,
            console := console t @ [''Polling for project status...'']\<rparr>"
    by blast
  then have b: "intervals (step TakeoffRejects t) = [1]"
    "console (step TakeoffRejects t) = [''Polling for project status...'']"
    using ht(2,3) by (simp_all del: step.simps)
  from fallback_then_ceiling [OF t_def] ht(4)
  have c: "intervals (run [IntervalFires, ProjectRejects, TakeoffRejects] (step TimeoutFires t)) = []"
    by blast
  from hs(1) ht(1,4) a b c show ?thesis
    unfolding s_def [symmetric] t_def [symmetric]
    by (simp only: simp_thms)
qed

end
